theory Spec2Isabelle
  imports Complex_Main
begin

section \<open>Lite Cycles: constants and data\<close>

text \<open>
  The embedding follows \<^verbatim>\<open>lite_cycles.py\<close>. Coordinates start as Python integers
  (grid-aligned start cells) and become floats after the first \<^verbatim>\<open>move()\<close>, because
  \<^verbatim>\<open>move_distance = GRID_SIZE * 1.5\<close>. Coordinates are modelled as rationals and the
  program's arithmetic on them as exact arithmetic. That is what the program computes
  only while the coordinates are integers small enough for IEEE doubles to hold them and
  their sums and differences without rounding; the predicates \<open>exact_coord\<close>,
  \<open>exact_player\<close> and \<open>exact_move\<close> below fix that range, and every theorem that speaks
  of coordinate values assumes it. Python compares \<^verbatim>\<open>int\<close> with \<^verbatim>\<open>float\<close> by value.
  Heading components, grid counts and screen sizes are Python integers, modelled as
  \<open>int\<close>.
\<close>

definition WINDOW_WIDTH :: int where "WINDOW_WIDTH = 1400"
definition WINDOW_HEIGHT :: int where "WINDOW_HEIGHT = 900"
definition GRID_SIZE :: int where "GRID_SIZE = 20"

definition NEON_BLUE :: "int \<times> int \<times> int" where "NEON_BLUE = (0, 255, 255)"
definition NEON_ORANGE :: "int \<times> int \<times> int" where "NEON_ORANGE = (255, 128, 0)"

datatype game_state = MENU | PLAYING | GAME_OVER

text \<open>The pygame key codes the program tests for; \<open>K_other\<close> is any other key code.\<close>

datatype key =
  K_UP | K_DOWN | K_LEFT | K_RIGHT | K_w | K_s | K_a | K_d
  | K_f | K_ESCAPE | K_1 | K_2 | K_r | K_m | K_other nat

datatype py_error = AttributeError | SystemExit

type_synonym heading = "int \<times> int"
type_synonym cell = "rat \<times> rat"

text \<open>
  \<^verbatim>\<open>class Player\<close>. The \<^verbatim>\<open>controls\<close> dict is an association list in insertion order.
  \<^verbatim>\<open>class AIPlayer(Player)\<close> adds two fields; \<open>ai_fields\<close> holds
  \<open>(last_decision_time, decision_interval)\<close> for an \<^verbatim>\<open>AIPlayer\<close> and is \<open>None\<close> for a
  plain \<^verbatim>\<open>Player\<close>, so \<^verbatim>\<open>isinstance(p, AIPlayer)\<close> is \<open>ai_fields p \<noteq> None\<close>.
\<close>

record player =
  x :: rat
  y :: rat
  color :: "int \<times> int \<times> int"
  controls :: "(key \<times> heading) list"
  name :: string
  direction :: heading
  trail :: "cell list"
  alive :: bool
  speed :: int
  ai_fields :: "(int \<times> int) option"

section \<open>Player\<close>

text \<open>\<^verbatim>\<open>Player.__init__(x, y, color, controls, name)\<close>\<close>

definition Player_init ::
  "int \<Rightarrow> int \<Rightarrow> int \<times> int \<times> int \<Rightarrow> (key \<times> heading) list \<Rightarrow> string \<Rightarrow> player" where
  "Player_init px py col ctl nm =
     \<lparr> x = of_int px, y = of_int py, color = col, controls = ctl, name = nm,
       direction = (1, 0), trail = [(of_int px, of_int py)], alive = True,
       speed = GRID_SIZE, ai_fields = None \<rparr>"

text \<open>\<^verbatim>\<open>move_distance = GRID_SIZE * 1.5\<close>, as computed in \<^verbatim>\<open>move\<close> and \<^verbatim>\<open>make_decision\<close>.\<close>

definition move_distance :: rat where
  "move_distance = of_int GRID_SIZE * (3 / 2)"

text \<open>
  The range in which the exact arithmetic of this model is the arithmetic of the program.
  A coordinate is exact when it is an integer of magnitude at most \<open>2 ^ 51\<close>. Such a value
  is the same number as a Python \<^verbatim>\<open>int\<close> and as a double, and the sum or difference of two
  such values, or of such a value and one step of 30, is an integer below \<open>2 ^ 53\<close> in
  magnitude, which double arithmetic returns without rounding. Beyond this range the
  program rounds to the nearest double, or raises \<^verbatim>\<open>OverflowError\<close> where an \<^verbatim>\<open>int\<close> is too
  large for a double; the definitions of this file do not describe that.
\<close>

definition exact_coord :: "rat \<Rightarrow> bool" where
  "exact_coord v \<longleftrightarrow> of_int \<lfloor>v\<rfloor> = v \<and> \<bar>v\<bar> \<le> 2 ^ 51"

definition exact_cell :: "cell \<Rightarrow> bool" where
  "exact_cell c \<longleftrightarrow> exact_coord (fst c) \<and> exact_coord (snd c)"

text \<open>The head and every trail cell of a player are exact.\<close>

definition exact_player :: "player \<Rightarrow> bool" where
  "exact_player p \<longleftrightarrow> exact_cell (x p, y p) \<and> (\<forall>c \<in> set (trail p). exact_cell c)"

text \<open>
  One \<^verbatim>\<open>move()\<close> of a player computes without rounding: the head, the products
  \<^verbatim>\<open>self.direction[i] * move_distance\<close> and the new head are exact.
\<close>

definition exact_move :: "player \<Rightarrow> bool" where
  "exact_move p \<longleftrightarrow>
     exact_cell (x p, y p)
     \<and> exact_cell (of_int (fst (direction p)) * move_distance,
                    of_int (snd (direction p)) * move_distance)
     \<and> exact_cell (x p + of_int (fst (direction p)) * move_distance,
                    y p + of_int (snd (direction p)) * move_distance)"

text \<open>\<^verbatim>\<open>xs[-1000:]\<close>: the last 1000 elements, the whole list when it is shorter.\<close>

definition last_1000 :: "'a list \<Rightarrow> 'a list" where
  "last_1000 xs = drop (length xs - 1000) xs"

text \<open>
  \<^verbatim>\<open>Player.move\<close>. The two additions are the program's for a player with \<open>exact_move\<close>
  (or one that is not alive, which returns at once).
\<close>

definition move :: "player \<Rightarrow> player" where
  "move p =
     (if \<not> alive p then p
      else
        let nx = x p + of_int (fst (direction p)) * move_distance;
            ny = y p + of_int (snd (direction p)) * move_distance;
            t = trail p @ [(nx, ny)]
        in p\<lparr> x := nx, y := ny,
               trail := (if length t > 1000 then last_1000 t else t) \<rparr>)"

text \<open>\<^verbatim>\<open>Player.change_direction\<close>\<close>

definition change_direction :: "player \<Rightarrow> heading \<Rightarrow> player" where
  "change_direction p new_direction =
     (if \<not> alive p then p
      else
        let opposite_direction = (- fst (direction p), - snd (direction p))
        in if new_direction \<noteq> opposite_direction
           then p\<lparr> direction := new_direction \<rparr> else p)"

text \<open>
  The scan \<^verbatim>\<open>for trail_x, trail_y in cells: if abs(hx - trail_x) < GRID_SIZE and
  abs(hy - trail_y) < GRID_SIZE: ...\<close> that \<^verbatim>\<open>check_collision\<close> and \<^verbatim>\<open>make_decision\<close>
  each run over the own and the opponent's trail; it stops at the first hit. The
  subtractions are the program's when \<open>hx\<close>, \<open>hy\<close> are exact coordinates, or one step of 30
  away from exact coordinates, and the cells are exact.
\<close>

fun hits_trail :: "rat \<Rightarrow> rat \<Rightarrow> cell list \<Rightarrow> bool" where
  "hits_trail hx hy [] = False"
| "hits_trail hx hy ((trail_x, trail_y) # rest) =
     (if \<bar>hx - trail_x\<bar> < of_int GRID_SIZE \<and> \<bar>hy - trail_y\<bar> < of_int GRID_SIZE
      then True else hits_trail hx hy rest)"

text \<open>
  \<^verbatim>\<open>Player.check_collision\<close>; the \<^verbatim>\<open>walls\<close> argument is never read. The result is the
  program's when both players satisfy \<open>exact_player\<close>.
\<close>

definition check_collision ::
  "player \<Rightarrow> player \<Rightarrow> (int \<times> int) list \<Rightarrow> int \<Rightarrow> int \<Rightarrow> bool" where
  "check_collision p other_player walls screen_width screen_height =
     (if \<not> alive p then False
      else if x p < 0 \<or> x p \<ge> of_int screen_width
              \<or> y p < 0 \<or> y p \<ge> of_int screen_height then True
      else if length (trail p) > 1 \<and> hits_trail (x p) (y p) (butlast (trail p)) then True
      else if hits_trail (x p) (y p) (trail other_player) then True
      else False)"

text \<open>\<^verbatim>\<open>Player.crash\<close>\<close>

definition crash :: "player \<Rightarrow> player" where
  "crash p = p\<lparr> alive := False \<rparr>"

section \<open>AIPlayer\<close>

text \<open>\<^verbatim>\<open>AIPlayer.__init__(x, y, color, name)\<close>\<close>

definition AIPlayer_init :: "int \<Rightarrow> int \<Rightarrow> int \<times> int \<times> int \<Rightarrow> string \<Rightarrow> player" where
  "AIPlayer_init px py col nm =
     (Player_init px py col [] nm)\<lparr> direction := (-1, 0), ai_fields := Some (0, 100) \<rparr>"

definition directions :: "heading list" where
  "directions = [(1, 0), (-1, 0), (0, 1), (0, -1)]"

text \<open>
  The loop of \<^verbatim>\<open>make_decision\<close> that collects \<^verbatim>\<open>safe_directions\<close>; the last argument is
  the list built so far. The program runs it over headings with components \<open>-1\<close>, \<open>0\<close>, \<open>1\<close>;
  for those, \<open>test_x\<close>, \<open>test_y\<close> and the scans are the program's when both players satisfy
  \<open>exact_player\<close>.
\<close>

fun safe_loop ::
  "player \<Rightarrow> player \<Rightarrow> int \<Rightarrow> int \<Rightarrow> heading list \<Rightarrow> heading list \<Rightarrow> heading list" where
  "safe_loop p other_player screen_width screen_height [] safe_directions = safe_directions"
| "safe_loop p other_player screen_width screen_height (d # ds) safe_directions =
     (let test_x = x p + of_int (fst d) * move_distance;
          test_y = y p + of_int (snd d) * move_distance
      in if test_x < 0 \<or> test_x \<ge> of_int screen_width
            \<or> test_y < 0 \<or> test_y \<ge> of_int screen_height
         then safe_loop p other_player screen_width screen_height ds safe_directions
         else
           let safe = \<not> hits_trail test_x test_y (butlast (trail p));
               safe = (if safe then \<not> hits_trail test_x test_y (trail other_player)
                       else safe)
           in if safe
              then safe_loop p other_player screen_width screen_height ds
                     (safe_directions @ [d])
              else safe_loop p other_player screen_width screen_height ds safe_directions)"

text \<open>
  \<^verbatim>\<open>AIPlayer.make_decision\<close>. \<^verbatim>\<open>directions[0]\<close> is read from a list of at least three
  elements (four, less at most the one removed), so it cannot raise.
\<close>

definition make_decision ::
  "player \<Rightarrow> player \<Rightarrow> (int \<times> int) list \<Rightarrow> int \<Rightarrow> int \<Rightarrow> player" where
  "make_decision p other_player walls screen_width screen_height =
     (if \<not> alive p then p
      else
        let opposite_direction = (- fst (direction p), - snd (direction p));
            dirs = (if opposite_direction \<in> set directions
                    then remove1 opposite_direction directions else directions);
            safe_directions = safe_loop p other_player screen_width screen_height dirs [];
            new_direction =
              (if safe_directions \<noteq> []
               then (if direction p \<in> set safe_directions then direction p
                     else hd safe_directions)
               else hd dirs)
        in change_direction p new_direction)"

section \<open>TronGame\<close>

text \<open>
  \<^verbatim>\<open>class TronGame\<close>, without fonts, clock and sounds (playing a sound changes no field
  modelled here). \<open>screen_size\<close> is what \<^verbatim>\<open>self.screen.get_size()\<close> returns. The players
  are \<^verbatim>\<open>None\<close> until the first \<^verbatim>\<open>reset_game\<close>; a method call or attribute read on
  \<^verbatim>\<open>None\<close> raises \<^verbatim>\<open>AttributeError\<close>.
\<close>

record game =
  fullscreen :: bool
  screen_size :: "int \<times> int"
  state :: game_state
  game_over_timer :: int
  winner :: "string option"
  player1 :: "player option"
  player2 :: "player option"
  ai_mode :: bool
  input_queue :: "key list"

text \<open>\<^verbatim>\<open>TronGame.__init__\<close>\<close>

definition TronGame_init :: game where
  "TronGame_init =
     \<lparr> fullscreen = False, screen_size = (WINDOW_WIDTH, WINDOW_HEIGHT), state = MENU,
       game_over_timer = 0, winner = None, player1 = None, player2 = None,
       ai_mode = False, input_queue = [] \<rparr>"

text \<open>
  \<^verbatim>\<open>TronGame.toggle_fullscreen\<close>; \<open>display\<close> is the size of the surface that
  \<^verbatim>\<open>pygame.display.set_mode((0, 0), pygame.FULLSCREEN)\<close> returns.
\<close>

definition toggle_fullscreen :: "game \<Rightarrow> int \<times> int \<Rightarrow> game" where
  "toggle_fullscreen g display =
     (let g = g\<lparr> fullscreen := \<not> fullscreen g \<rparr>
      in if fullscreen g then g\<lparr> screen_size := display \<rparr>
         else g\<lparr> screen_size := (WINDOW_WIDTH, WINDOW_HEIGHT) \<rparr>)"

definition player1_controls :: "(key \<times> heading) list" where
  "player1_controls = [(K_UP, (0, -1)), (K_DOWN, (0, 1)), (K_LEFT, (-1, 0)), (K_RIGHT, (1, 0))]"

definition player2_controls :: "(key \<times> heading) list" where
  "player2_controls = [(K_w, (0, -1)), (K_s, (0, 1)), (K_a, (-1, 0)), (K_d, (1, 0))]"

text \<open>\<^verbatim>\<open>TronGame.reset_game\<close>; \<^verbatim>\<open>3 * grid_cols // 4\<close> parses as \<^verbatim>\<open>(3 * grid_cols) // 4\<close>.\<close>

definition reset_game :: "game \<Rightarrow> game" where
  "reset_game g =
     (let (screen_width, screen_height) = screen_size g;
          grid_cols = screen_width div GRID_SIZE;
          grid_rows = screen_height div GRID_SIZE;
          player1_x = (grid_cols div 4) * GRID_SIZE;
          player1_y = (grid_rows div 2) * GRID_SIZE;
          p1 = Player_init player1_x player1_y NEON_BLUE player1_controls ''Player 1'';
          player2_x = (3 * grid_cols div 4) * GRID_SIZE;
          player2_y = (grid_rows div 2) * GRID_SIZE;
          p2 = (if ai_mode g
                then AIPlayer_init player2_x player2_y NEON_ORANGE ''AI''
                else Player_init player2_x player2_y NEON_ORANGE player2_controls
                       ''Player 2'')
      in g\<lparr> player1 := Some p1, player2 := Some p2, state := PLAYING,
              game_over_timer := 0, winner := None, input_queue := [] \<rparr>)"

text \<open>
  \<^verbatim>\<open>TronGame.handle_input\<close>; \<open>keys\<close> is the result of \<^verbatim>\<open>pygame.key.get_pressed()\<close>. Each
  loop runs over the items of a \<^verbatim>\<open>controls\<close> dict in insertion order.
\<close>

definition apply_pressed :: "(key \<Rightarrow> bool) \<Rightarrow> player \<Rightarrow> player" where
  "apply_pressed keys p =
     foldl (\<lambda>q (k, d). if keys k then change_direction q d else q) p (controls p)"

definition handle_input :: "game \<Rightarrow> (key \<Rightarrow> bool) \<Rightarrow> py_error + game" where
  "handle_input g keys =
     (if state g = PLAYING
      then (case player1 g of
              None \<Rightarrow> Inl AttributeError
            | Some p1 \<Rightarrow>
                let g = g\<lparr> player1 := Some (apply_pressed keys p1) \<rparr>
                in if \<not> ai_mode g
                   then (case player2 g of
                           None \<Rightarrow> Inl AttributeError
                         | Some p2 \<Rightarrow> Inr (g\<lparr> player2 := Some (apply_pressed keys p2) \<rparr>))
                   else Inr g)
      else Inr g)"

text \<open>
  The body of the loop of \<^verbatim>\<open>process_input_queue\<close> after \<^verbatim>\<open>key = self.input_queue.pop(0)\<close>:
  it reads \<^verbatim>\<open>self.ai_mode\<close> and the two players and updates the players.
\<close>

definition process_key ::
  "key \<Rightarrow> bool \<Rightarrow> player option \<Rightarrow> player option
     \<Rightarrow> py_error + (player option \<times> player option)" where
  "process_key k ai pl1 pl2 =
     (case pl1 of
        None \<Rightarrow> Inl AttributeError
      | Some p1 \<Rightarrow>
          let pl1 = (case map_of (controls p1) k of
                       Some d \<Rightarrow> Some (change_direction p1 d)
                     | None \<Rightarrow> Some p1)
          in if \<not> ai
             then (case pl2 of
                     None \<Rightarrow> Inl AttributeError
                   | Some p2 \<Rightarrow>
                       (case map_of (controls p2) k of
                          Some d \<Rightarrow> Inr (pl1, Some (change_direction p2 d))
                        | None \<Rightarrow> Inr (pl1, Some p2)))
             else Inr (pl1, pl2))"

text \<open>\<^verbatim>\<open>TronGame.process_input_queue\<close>\<close>

function process_input_queue :: "game \<Rightarrow> py_error + game" where
  "process_input_queue g =
     (if input_queue g \<noteq> [] \<and> state g = PLAYING
      then (case process_key (hd (input_queue g)) (ai_mode g) (player1 g) (player2 g) of
              Inl e \<Rightarrow> Inl e
            | Inr (pl1, pl2) \<Rightarrow>
                process_input_queue
                  (g\<lparr> input_queue := tl (input_queue g), player1 := pl1, player2 := pl2 \<rparr>))
      else Inr g)"
  by pat_completeness auto
termination
  by (relation "measure (\<lambda>g. length (input_queue g))") auto

declare process_input_queue.simps [simp del]

text \<open>
  \<^verbatim>\<open>TronGame.handle_key_event\<close>; \<^verbatim>\<open>sys.exit()\<close> raises \<^verbatim>\<open>SystemExit\<close>. \<open>display\<close> is
  passed on to \<open>toggle_fullscreen\<close>.
\<close>

definition handle_key_event :: "game \<Rightarrow> key \<Rightarrow> int \<times> int \<Rightarrow> py_error + game" where
  "handle_key_event g k display =
     (if k = K_ESCAPE then Inl SystemExit
      else
        let g = (if k = K_f then toggle_fullscreen g display else g)
        in if state g = MENU
           then (if k = K_1 then Inr (reset_game (g\<lparr> ai_mode := False \<rparr>))
                 else if k = K_2 then Inr (reset_game (g\<lparr> ai_mode := True \<rparr>))
                 else Inr g)
           else if state g = GAME_OVER
           then (if k = K_r then Inr (reset_game g)
                 else if k = K_m then Inr (g\<lparr> state := MENU \<rparr>)
                 else Inr g)
           else if state g = PLAYING
           then (if k \<in> set [K_UP, K_DOWN, K_LEFT, K_RIGHT] \<or> k \<in> set [K_w, K_s, K_a, K_d]
                 then Inr (g\<lparr> input_queue := input_queue g @ [k] \<rparr>)
                 else Inr g)
           else Inr g)"

text \<open>
  \<^verbatim>\<open>TronGame.update\<close>; \<open>now\<close> is the value of \<^verbatim>\<open>pygame.time.get_ticks()\<close>. When the phase
  is \<open>PLAYING\<close> and a player is \<^verbatim>\<open>None\<close>, the call raises \<^verbatim>\<open>AttributeError\<close>, at the latest
  at \<^verbatim>\<open>self.player1.move()\<close> or \<^verbatim>\<open>self.player2.move()\<close>.
\<close>

definition update :: "game \<Rightarrow> int \<Rightarrow> py_error + game" where
  "update g now =
     (if state g \<noteq> PLAYING then Inr g
      else
        case process_input_queue g of
          Inl e \<Rightarrow> Inl e
        | Inr g \<Rightarrow>
            (case (player1 g, player2 g) of
               (Some p1, Some p2) \<Rightarrow>
                 let (screen_width, screen_height) = screen_size g;
                     p2 = (if ai_mode g \<and> ai_fields p2 \<noteq> None
                           then make_decision p2 p1 [] screen_width screen_height else p2);
                     p1 = move p1;
                     p2 = move p2;
                     p1 = (if check_collision p1 p2 [] screen_width screen_height
                           then crash p1 else p1);
                     p2 = (if check_collision p2 p1 [] screen_width screen_height
                           then crash p2 else p2);
                     g = g\<lparr> player1 := Some p1, player2 := Some p2 \<rparr>
                 in if \<not> alive p1 \<or> \<not> alive p2
                    then Inr (g\<lparr> state := GAME_OVER, game_over_timer := now,
                                  winner := (if \<not> alive p1 \<and> \<not> alive p2 then Some ''Tie''
                                             else if \<not> alive p1 then Some (name p2)
                                             else Some (name p1)) \<rparr>)
                    else Inr g
             | _ \<Rightarrow> Inl AttributeError))"

section \<open>Vocabulary of the specification\<close>

text \<open>
  The definitions of this section follow the words of the specification, not the code;
  the theorems below relate them to the functions above.
\<close>

text \<open>The exact opposite of a heading: its componentwise negation.\<close>

definition opposite :: "heading \<Rightarrow> heading" where
  "opposite h = (- fst h, - snd h)"

text \<open>
  The cell-overlap rule: two cells overlap when they differ by strictly less than the grid
  edge on both axes.
\<close>

definition overlaps :: "cell \<Rightarrow> cell \<Rightarrow> bool" where
  "overlaps a b \<longleftrightarrow>
     \<bar>fst a - fst b\<bar> < of_int GRID_SIZE \<and> \<bar>snd a - snd b\<bar> < of_int GRID_SIZE"

text \<open>The wall rule: a cell is out of bounds when a coordinate is below 0 or at least the bound.\<close>

definition out_of_bounds :: "cell \<Rightarrow> int \<Rightarrow> int \<Rightarrow> bool" where
  "out_of_bounds c W H \<longleftrightarrow> fst c < 0 \<or> fst c \<ge> of_int W \<or> snd c < 0 \<or> snd c \<ge> of_int H"

text \<open>The head cell of a player.\<close>

definition head :: "player \<Rightarrow> cell" where
  "head p = (x p, y p)"

text \<open>The cell one full step (1.5 grid edges) from the head of \<open>p\<close> along heading \<open>d\<close>.\<close>

definition step_cell :: "player \<Rightarrow> heading \<Rightarrow> cell" where
  "step_cell p d =
     (x p + of_int (fst d) * (3 / 2 * of_int GRID_SIZE),
      y p + of_int (snd d) * (3 / 2 * of_int GRID_SIZE))"

text \<open>
  The candidate headings of the AI: right, left, down, up in this order, without the exact
  opposite of the current heading.
\<close>

definition candidates :: "heading \<Rightarrow> heading list" where
  "candidates h = filter (\<lambda>d. d \<noteq> opposite h) [(1, 0), (-1, 0), (0, 1), (0, -1)]"

text \<open>
  A candidate is safe when the cell one step along it is in bounds and overlaps neither a
  cell of the own trail without its last entry nor a cell of the opponent's trail.
\<close>

definition safe_heading :: "player \<Rightarrow> player \<Rightarrow> int \<Rightarrow> int \<Rightarrow> heading \<Rightarrow> bool" where
  "safe_heading p opp W H d \<longleftrightarrow>
     \<not> out_of_bounds (step_cell p d) W H
     \<and> (\<forall>c \<in> set (butlast (trail p)). \<not> overlaps (step_cell p d) c)
     \<and> (\<forall>c \<in> set (trail opp). \<not> overlaps (step_cell p d) c)"

text \<open>
  The heading the AI is to adopt: the current heading when it is safe, else the first safe
  candidate in enumeration order, else the first candidate whether safe or not.
\<close>

definition ai_choice :: "player \<Rightarrow> player \<Rightarrow> int \<Rightarrow> int \<Rightarrow> heading" where
  "ai_choice p opp W H =
     (if safe_heading p opp W H (direction p) then direction p
      else case find (safe_heading p opp W H) (candidates (direction p)) of
             Some d \<Rightarrow> d
           | None \<Rightarrow> hd (candidates (direction p)))"

text \<open>A queued key applied to the player it is bound to, through \<open>change_direction\<close>.\<close>

definition press :: "player \<Rightarrow> key \<Rightarrow> player" where
  "press p k = (case map_of (controls p) k of Some d \<Rightarrow> change_direction p d | None \<Rightarrow> p)"

text \<open>
  The player states reached from a freshly constructed \<^verbatim>\<open>Player\<close> or \<^verbatim>\<open>AIPlayer\<close> by
  calls of \<^verbatim>\<open>move()\<close> and \<^verbatim>\<open>change_direction()\<close>, with an exact start cell and every
  move computed without rounding.
\<close>

inductive reachable :: "player \<Rightarrow> bool" where
  fresh: "exact_cell (of_int px, of_int py) \<Longrightarrow> reachable (Player_init px py col ctl nm)"
| fresh_ai: "exact_cell (of_int px, of_int py) \<Longrightarrow> reachable (AIPlayer_init px py col nm)"
| after_move: "reachable p \<Longrightarrow> exact_move p \<Longrightarrow> reachable (move p)"
| after_change: "reachable p \<Longrightarrow> reachable (change_direction p d)"

text \<open>
  The stages of one tick in phase \<open>PLAYING\<close>, as the specification orders them: the queued
  keys applied to both players oldest first (to player two only outside AI mode), then the
  AI decision for player two on the state before any move, then the move of both players,
  then \<open>crash\<close> for a player whose collision check succeeds.
\<close>

definition drained :: "game \<Rightarrow> player \<Rightarrow> player \<Rightarrow> player \<times> player" where
  "drained g p1 p2 =
     (foldl press p1 (input_queue g),
      if ai_mode g then p2 else foldl press p2 (input_queue g))"

definition decided :: "game \<Rightarrow> player \<times> player \<Rightarrow> player \<times> player" where
  "decided g ps =
     (fst ps,
      if ai_mode g \<and> ai_fields (snd ps) \<noteq> None
      then make_decision (snd ps) (fst ps) [] (fst (screen_size g)) (snd (screen_size g))
      else snd ps)"

definition moved :: "game \<Rightarrow> player \<Rightarrow> player \<Rightarrow> player \<times> player" where
  "moved g p1 p2 =
     (move (fst (decided g (drained g p1 p2))), move (snd (decided g (drained g p1 p2))))"

definition collided :: "game \<Rightarrow> player \<Rightarrow> player \<Rightarrow> player" where
  "collided g p opp =
     (if check_collision p opp [] (fst (screen_size g)) (snd (screen_size g))
      then crash p else p)"

text \<open>
  The invariant behind the trail geometry: the trail ends in the head, and every trail cell
  is an integer number of steps away from the head on each axis.
\<close>

definition on_lattice :: "player \<Rightarrow> bool" where
  "on_lattice p \<longleftrightarrow>
     trail p \<noteq> [] \<and> last (trail p) = (x p, y p)
     \<and> (\<forall>c \<in> set (trail p). \<exists>k l :: int.
           fst c = x p + of_int k * move_distance \<and> snd c = y p + of_int l * move_distance)"

text \<open>Concrete players and sessions used to instantiate the theorems.\<close>

definition blue :: player where
  "blue = move (move (Player_init 100 200 NEON_BLUE player1_controls ''Player 1''))"

definition orange :: player where
  "orange = AIPlayer_init 170 200 NEON_ORANGE ''AI''"

text \<open>
  A session in play in which player two has queued "down" and then "left" and the two heads
  are two steps apart.
\<close>

definition duel :: game where
  "duel = TronGame_init
     \<lparr> state := PLAYING,
       player1 := Some (Player_init 100 200 NEON_BLUE player1_controls ''Player 1''),
       player2 := Some (Player_init 160 200 NEON_ORANGE player2_controls ''Player 2''),
       input_queue := [K_s, K_a] \<rparr>"

text \<open>A player that has driven a closed square and is back on its start cell.\<close>

definition looped :: player where
  "looped =
     move (change_direction (move (change_direction (move (change_direction
       (move (Player_init 100 200 NEON_BLUE player1_controls ''Player 1''))
       (0, 1))) (-1, 0))) (0, -1))"

section \<open>Player: movement and direction changes\<close>

lemma direction_change_direction:
  "direction (change_direction p d) =
     (if alive p \<and> d \<noteq> (- fst (direction p), - snd (direction p)) then d else direction p)"
  by (simp add: change_direction_def Let_def)

lemma change_direction_nonzero:
  "direction p \<noteq> (0, 0) \<Longrightarrow> d \<noteq> (0, 0) \<Longrightarrow> direction (change_direction p d) \<noteq> (0, 0)"
  by (simp add: direction_change_direction)

lemma foldl_change_direction_nonzero:
  "direction p \<noteq> (0, 0) \<Longrightarrow> (0, 0) \<notin> set ds
     \<Longrightarrow> direction (foldl change_direction p ds) \<noteq> (0, 0)"
proof (induction ds arbitrary: p)
  case Nil
  then show ?case by simp
next
  case (Cons d ds)
  have "d \<noteq> (0, 0)" and rest: "(0, 0) \<notin> set ds"
    using Cons.prems(2) by auto
  then have "direction (change_direction p d) \<noteq> (0, 0)"
    using Cons.prems(1) by (simp only: change_direction_nonzero not_False_eq_True)
  from Cons.IH[OF this rest] show ?case by simp
qed

lemma change_direction_not_opposite:
  "direction p \<noteq> (0, 0) \<Longrightarrow> direction (change_direction p d) \<noteq> opposite (direction p)"
  by (cases "direction p") (auto simp: change_direction_def opposite_def Let_def)

lemma change_direction_alive:
  "alive p \<Longrightarrow>
     change_direction p d = (if d \<noteq> opposite (direction p) then p\<lparr> direction := d \<rparr> else p)"
  by (simp add: change_direction_def opposite_def Let_def)

lemma change_direction_adopts_iff:
  "alive p \<Longrightarrow> direction p \<noteq> (0, 0) \<Longrightarrow>
     direction (change_direction p d) = d \<longleftrightarrow> d \<noteq> opposite (direction p)"
  by (cases "direction p") (auto simp: change_direction_def opposite_def Let_def)

lemma foldl_no_reversal:
  assumes "ds \<noteq> []" "direction p \<noteq> (0, 0)" "(0, 0) \<notin> set ds"
  shows "direction (foldl change_direction p ds)
           \<noteq> opposite (direction (foldl change_direction p (butlast ds)))"
proof -
  obtain ds' d where ds: "ds = ds' @ [d]"
    using assms(1) by (cases ds rule: rev_cases) auto
  have "(0, 0) \<notin> set ds'"
    using assms(3) unfolding ds by simp
  with assms(2) have nz: "direction (foldl change_direction p ds') \<noteq> (0, 0)"
    by (rule foldl_change_direction_nonzero)
  have "direction (change_direction (foldl change_direction p ds') d)
          \<noteq> opposite (direction (foldl change_direction p ds'))"
    by (rule change_direction_not_opposite[OF nz])
  then show ?thesis
    unfolding ds by simp
qed

text \<open>
  Claim C4. For an alive player and any requested heading \<open>d\<close>, \<open>change_direction\<close> sets
  the heading to \<open>d\<close> when \<open>d\<close> is not the componentwise negation of the current heading and
  otherwise returns the player unchanged; no branch raises. For a current heading other
  than the zero vector (all four headings are), the heading after the call is \<open>d\<close> if and
  only if \<open>d\<close> is not that negation. After any non-empty sequence \<open>ds\<close> of calls with such
  headings, the resulting heading is not the opposite of the heading held just before
  the last call.
\<close>

theorem change_direction_no_reversal:
  "(alive p \<longrightarrow>
      change_direction p d
        = (if d \<noteq> opposite (direction p) then p\<lparr> direction := d \<rparr> else p))
   \<and> (alive p \<and> direction p \<noteq> (0, 0) \<longrightarrow>
        (direction (change_direction p d) = d \<longleftrightarrow> d \<noteq> opposite (direction p)))
   \<and> (ds \<noteq> [] \<and> direction p \<noteq> (0, 0) \<and> (0, 0) \<notin> set ds \<longrightarrow>
        direction (foldl change_direction p ds)
          \<noteq> opposite (direction (foldl change_direction p (butlast ds))))"
  using change_direction_alive[of p d] change_direction_adopts_iff[of p d]
    foldl_no_reversal[of ds p]
  by blast

theorem change_direction_no_reversal_witness:
  "alive blue \<and> direction blue \<noteq> (0, 0)
   \<and> change_direction blue (-1, 0) = blue
   \<and> direction (change_direction blue (0, 1)) = (0, 1)
   \<and> direction (foldl change_direction blue [(0, 1), (0, -1)])
        \<noteq> opposite (direction (foldl change_direction blue [(0, 1)]))"
proof -
  have a: "alive blue" and d: "direction blue = (1, 0)"
    by (simp_all add: blue_def move_def Player_init_def Let_def)
  have nz: "direction blue \<noteq> (0, 0)"
    by (simp add: d)
  have o: "opposite (direction blue) = (-1, 0)"
    by (simp add: d opposite_def)
  have "[(0, 1), (0, -1)] \<noteq> [] \<and> direction blue \<noteq> (0, 0)
          \<and> (0, 0) \<notin> set [(0::int, 1::int), (0, -1)]"
    using nz by simp
  with change_direction_no_reversal[of blue "(-1, 0)" "[(0, 1), (0, -1)]"]
    change_direction_no_reversal[of blue "(0, 1)" "[(0, 1), (0, -1)]"] a nz o
  show ?thesis by simp
qed

text \<open>
  Claim C5. For an alive player whose move computes without rounding (\<open>exact_move\<close>),
  \<open>move\<close> advances the position by the heading times 1.5 times \<open>GRID_SIZE\<close> and appends
  the new position, itself an exact cell, as the last trail element. While the
  trail is shorter than 1000 the length grows by exactly 1; at 1000 the oldest cell is
  dropped and the length stays 1000; the trail never has more than 1000 cells after
  \<open>move\<close>.
\<close>

theorem move_alive:
  "alive p \<and> exact_move p \<longrightarrow>
     x (move p) = x p + of_int (fst (direction p)) * (3 / 2 * of_int GRID_SIZE)
     \<and> y (move p) = y p + of_int (snd (direction p)) * (3 / 2 * of_int GRID_SIZE)
     \<and> last (trail (move p)) = (x (move p), y (move p))
     \<and> exact_cell (x (move p), y (move p))
     \<and> (length (trail p) < 1000 \<longrightarrow>
          trail (move p) = trail p @ [(x (move p), y (move p))]
          \<and> length (trail (move p)) = length (trail p) + 1)
     \<and> (length (trail p) = 1000 \<longrightarrow>
          trail (move p) = tl (trail p) @ [(x (move p), y (move p))]
          \<and> length (trail (move p)) = 1000)
     \<and> length (trail (move p)) \<le> 1000"
proof (intro impI, elim conjE)
  assume a: "alive p" and e: "exact_move p"
  have pos: "x (move p) = x p + of_int (fst (direction p)) * move_distance"
            "y (move p) = y p + of_int (snd (direction p)) * move_distance"
    using a by (simp_all add: move_def Let_def)
  have ex: "exact_cell (x (move p), y (move p))"
    using e unfolding pos exact_move_def by blast
  have rest: "x (move p) = x p + of_int (fst (direction p)) * (3 / 2 * of_int GRID_SIZE)
     \<and> y (move p) = y p + of_int (snd (direction p)) * (3 / 2 * of_int GRID_SIZE)
     \<and> last (trail (move p)) = (x (move p), y (move p))
     \<and> (length (trail p) < 1000 \<longrightarrow>
          trail (move p) = trail p @ [(x (move p), y (move p))]
          \<and> length (trail (move p)) = length (trail p) + 1)
     \<and> (length (trail p) = 1000 \<longrightarrow>
          trail (move p) = tl (trail p) @ [(x (move p), y (move p))]
          \<and> length (trail (move p)) = 1000)
     \<and> length (trail (move p)) \<le> 1000"
    using a by (auto simp: move_def Let_def move_distance_def last_1000_def drop_Suc)
  with ex show "x (move p) = x p + of_int (fst (direction p)) * (3 / 2 * of_int GRID_SIZE)
     \<and> y (move p) = y p + of_int (snd (direction p)) * (3 / 2 * of_int GRID_SIZE)
     \<and> last (trail (move p)) = (x (move p), y (move p))
     \<and> exact_cell (x (move p), y (move p))
     \<and> (length (trail p) < 1000 \<longrightarrow>
          trail (move p) = trail p @ [(x (move p), y (move p))]
          \<and> length (trail (move p)) = length (trail p) + 1)
     \<and> (length (trail p) = 1000 \<longrightarrow>
          trail (move p) = tl (trail p) @ [(x (move p), y (move p))]
          \<and> length (trail (move p)) = 1000)
     \<and> length (trail (move p)) \<le> 1000"
    by blast
qed

theorem move_alive_witness:
  "alive (Player_init 100 200 NEON_BLUE player1_controls ''Player 1'')
   \<and> exact_move (Player_init 100 200 NEON_BLUE player1_controls ''Player 1'')
   \<and> x blue = 160 \<and> y blue = 200 \<and> trail blue = [(100, 200), (130, 200), (160, 200)]"
proof -
  let ?p0 = "Player_init 100 200 NEON_BLUE player1_controls ''Player 1''"
  have a0: "alive ?p0" and a1: "alive (move ?p0)"
    by (simp_all add: move_def Player_init_def Let_def)
  have e0: "exact_move ?p0"
    by (simp add: exact_move_def exact_cell_def exact_coord_def Player_init_def
        move_distance_def GRID_SIZE_def)
  have l0: "length (trail ?p0) < 1000"
    by (simp add: Player_init_def)
  have s0: "x ?p0 = 100" "y ?p0 = 200" "direction ?p0 = (1, 0)" "trail ?p0 = [(100, 200)]"
    by (simp_all add: Player_init_def)
  from move_alive[of ?p0] a0 e0 l0 s0
  have m1: "x (move ?p0) = 130" "y (move ?p0) = 200"
       "trail (move ?p0) = [(100, 200), (130, 200)]"
    by (simp_all add: GRID_SIZE_def)
  have d1: "direction (move ?p0) = (1, 0)"
    by (simp add: move_def Player_init_def Let_def)
  have e1: "exact_move (move ?p0)"
    by (simp add: exact_move_def exact_cell_def exact_coord_def m1 d1
        move_distance_def GRID_SIZE_def)
  from move_alive[of "move ?p0"] a1 e1 m1 d1
  have "x (move (move ?p0)) = 160" "y (move (move ?p0)) = 200"
       "trail (move (move ?p0)) = [(100, 200), (130, 200), (160, 200)]"
    by (simp_all add: GRID_SIZE_def)
  with a0 e0 show ?thesis
    by (simp add: blue_def)
qed

text \<open>
  Claim C7. For a player that is not alive, \<open>move\<close>, \<open>change_direction\<close> and
  \<open>make_decision\<close> return the player unchanged: position, heading, trail and every other
  field.
\<close>

theorem dead_player_frozen:
  "\<not> alive p \<longrightarrow>
     move p = p \<and> change_direction p d = p \<and> make_decision p opp walls W H = p"
  by (simp add: move_def change_direction_def make_decision_def)

theorem dead_player_frozen_witness:
  "\<not> alive (crash blue)
   \<and> move (crash blue) = crash blue
   \<and> change_direction (crash blue) (0, 1) = crash blue
   \<and> make_decision (crash blue) orange [] 1400 900 = crash blue"
proof -
  have "\<not> alive (crash blue)"
    by (simp add: crash_def)
  with dead_player_frozen[of "crash blue" "(0, 1)" orange "[]" 1400 900]
  show ?thesis by simp
qed

section \<open>Collision check\<close>

lemma hits_trail_iff:
  "hits_trail hx hy cs \<longleftrightarrow> (\<exists>c \<in> set cs. overlaps (hx, hy) c)"
  by (induction cs) (auto simp: overlaps_def)

text \<open>
  Claim C1. For players with exact coordinates (\<open>exact_player\<close>), \<open>check_collision\<close> is
  false for a player that is not alive. For an alive player it is true exactly when the head is out of bounds (a coordinate below 0, or equal
  to or beyond the width or height), or overlaps a cell of the own trail without its last
  entry, or overlaps a cell of the opponent's whole trail, head included.
\<close>

theorem check_collision_spec:
  "exact_player p \<and> exact_player opp \<longrightarrow>
     (check_collision p opp walls W H \<longleftrightarrow>
        alive p \<and>
        (out_of_bounds (head p) W H
         \<or> (\<exists>c \<in> set (butlast (trail p)). overlaps (head p) c)
         \<or> (\<exists>c \<in> set (trail opp). overlaps (head p) c)))"
proof -
  have "butlast (trail p) = []" if "\<not> length (trail p) > 1"
    using that by (cases "trail p") auto
  then show ?thesis
    unfolding check_collision_def hits_trail_iff out_of_bounds_def head_def
    by auto
qed

lemma blue_fields:
  "alive blue" "x blue = 160" "y blue = 200" "direction blue = (1, 0)"
  "trail blue = [(100, 200), (130, 200), (160, 200)]"
  by (simp_all add: blue_def move_def Player_init_def Let_def move_distance_def GRID_SIZE_def
      last_1000_def)

lemma orange_fields:
  "alive orange" "x orange = 170" "y orange = 200" "direction orange = (-1, 0)"
  "trail orange = [(170, 200)]"
  by (simp_all add: orange_def AIPlayer_init_def Player_init_def)

lemma blue_orange_exact:
  "exact_player blue" "exact_player orange" "exact_player (crash blue)"
  by (simp_all add: exact_player_def exact_cell_def exact_coord_def blue_fields orange_fields
      crash_def)

theorem check_collision_spec_witness:
  "exact_player blue \<and> exact_player orange
   \<and> check_collision blue orange [] 1400 900 \<and> \<not> check_collision (crash blue) orange [] 1400 900
   \<and> (\<exists>c \<in> set (trail orange). overlaps (head blue) c)"
proof -
  have ov: "\<exists>c \<in> set (trail orange). overlaps (head blue) c"
    by (simp add: blue_fields orange_fields overlaps_def head_def GRID_SIZE_def)
  have 1: "check_collision blue orange [] 1400 900"
    using check_collision_spec[of blue orange "[]" 1400 900] ov blue_fields(1)
      blue_orange_exact by blast
  have 2: "\<not> check_collision (crash blue) orange [] 1400 900"
    using check_collision_spec[of "crash blue" orange "[]" 1400 900] blue_orange_exact
    by (simp add: crash_def)
  from 1 2 ov blue_orange_exact show ?thesis by blast
qed

section \<open>TronGame: phases outside play\<close>

text \<open>
  Claim C10. In phase \<open>MENU\<close> or \<open>GAME_OVER\<close>, \<open>update\<close> returns the session unchanged:
  players, winner, timestamp, input queue and phase.
\<close>

theorem update_not_playing:
  "state g = MENU \<or> state g = GAME_OVER \<longrightarrow> update g now = Inr g"
  by (auto simp: update_def)

theorem update_not_playing_witness:
  "state TronGame_init = MENU \<and> update TronGame_init 5000 = Inr TronGame_init
   \<and> update (TronGame_init\<lparr> state := GAME_OVER, winner := Some ''Tie'' \<rparr>) 5000
       = Inr (TronGame_init\<lparr> state := GAME_OVER, winner := Some ''Tie'' \<rparr>)"
proof -
  have m: "state TronGame_init = MENU"
    by (simp add: TronGame_init_def)
  have o: "state (TronGame_init\<lparr> state := GAME_OVER, winner := Some ''Tie'' \<rparr>) = GAME_OVER"
    by simp
  from update_not_playing[of TronGame_init 5000] m
    update_not_playing[of "TronGame_init\<lparr> state := GAME_OVER, winner := Some ''Tie'' \<rparr>" 5000] o
  show ?thesis by blast
qed

section \<open>AIPlayer: the decision\<close>

lemma step_cell_eq:
  "step_cell p d = (x p + of_int (fst d) * move_distance, y p + of_int (snd d) * move_distance)"
  by (simp add: step_cell_def move_distance_def mult.commute)

lemma safe_loop_filter:
  "safe_loop p opp W H ds acc = acc @ filter (safe_heading p opp W H) ds"
proof (induction ds arbitrary: acc)
  case Nil
  then show ?case by simp
next
  case (Cons d ds)
  show ?case
    by (auto simp add: Cons.IH Let_def safe_heading_def step_cell_eq out_of_bounds_def
        hits_trail_iff)
qed

lemma dirs_candidates:
  "(if (- fst h, - snd h) \<in> set directions
    then remove1 (- fst h, - snd h) directions else directions) = candidates h"
  by (simp add: directions_def candidates_def opposite_def)

lemma candidates_nonempty: "candidates h \<noteq> []"
proof -
  have "(1, 0) \<noteq> opposite h \<or> (-1, 0) \<noteq> opposite h"
    by (cases h) (simp add: opposite_def)
  then show ?thesis
    by (auto simp: candidates_def)
qed

lemma candidates_not_opposite: "d \<in> set (candidates h) \<Longrightarrow> d \<noteq> opposite h"
  unfolding candidates_def set_filter by blast

lemma heading_in_candidates:
  "h \<in> set [(1, 0), (-1, 0), (0, 1), (0, -1)] \<Longrightarrow> h \<in> set (candidates h)"
  by (auto simp: candidates_def opposite_def)

lemma find_filter_hd:
  "find P xs = (if filter P xs = [] then None else Some (hd (filter P xs)))"
  by (induction xs) auto


lemma make_decision_alive:
  assumes "alive p"
  shows "make_decision p opp walls W H =
           p\<lparr> direction :=
                (let safe = filter (safe_heading p opp W H) (candidates (direction p))
                 in if safe \<noteq> []
                    then (if direction p \<in> set safe then direction p else hd safe)
                    else hd (candidates (direction p))) \<rparr>"
proof -
  let ?c = "candidates (direction p)"
  let ?safe = "filter (safe_heading p opp W H) ?c"
  let ?new = "if ?safe \<noteq> [] then (if direction p \<in> set ?safe then direction p else hd ?safe)
              else hd ?c"
  have md: "make_decision p opp walls W H = change_direction p ?new"
    using assms
    by (simp add: make_decision_def dirs_candidates safe_loop_filter Let_def)
  have "hd ?safe \<in> set ?c" if "?safe \<noteq> []"
    using that hd_in_set[of ?safe] by (metis filter_is_subset subsetD)
  moreover have "hd ?c \<in> set ?c"
    using candidates_nonempty by simp
  moreover have "direction p \<in> set ?c" if "direction p \<in> set ?safe"
    using that by simp
  ultimately have "?new \<in> set ?c"
    by presburger
  then have "?new \<noteq> opposite (direction p)"
    by (rule candidates_not_opposite)
  then have "change_direction p ?new = p\<lparr> direction := ?new \<rparr>"
    using assms by (simp add: change_direction_def opposite_def Let_def)
  with md show ?thesis
    by (simp add: Let_def)
qed

text \<open>
  Claim C6. For players with exact coordinates (\<open>exact_player\<close>): the list of safe
  headings that \<open>make_decision\<close> collects is the list of candidates (right, left, down, up without the opposite of the current heading) filtered
  by the safety predicate: one step of 1.5 grid edges stays in bounds and overlaps neither
  the own trail without its last entry nor the opponent's trail. For an alive player whose
  heading is one of the four headings, \<open>make_decision\<close> changes only the heading, to the
  current heading when that is safe, else to the first safe candidate, else to the first
  candidate.
\<close>

theorem make_decision_spec:
  "exact_player p \<and> exact_player opp \<longrightarrow>
     safe_loop p opp W H (candidates (direction p)) []
       = filter (safe_heading p opp W H) (candidates (direction p))
     \<and> (alive p \<and> direction p \<in> set [(1, 0), (-1, 0), (0, 1), (0, -1)] \<longrightarrow>
          make_decision p opp walls W H = p\<lparr> direction := ai_choice p opp W H \<rparr>)"
proof (intro conjI impI, goal_cases)
  case 1
  show ?case by (simp add: safe_loop_filter)
next
  case 2
  then have a: "alive p" and h: "direction p \<in> set [(1, 0), (-1, 0), (0, 1), (0, -1)]"
    by blast+
  let ?c = "candidates (direction p)"
  let ?P = "safe_heading p opp W H"
  have inc: "direction p \<in> set ?c"
    using h by (rule heading_in_candidates)
  have "(let safe = filter ?P ?c
         in if safe \<noteq> [] then (if direction p \<in> set safe then direction p else hd safe)
            else hd ?c) = ai_choice p opp W H"
  proof (cases "?P (direction p)")
    case True
    then have m: "direction p \<in> set (filter ?P ?c)"
      using inc by simp
    then have "filter ?P ?c \<noteq> []"
      by (metis empty_iff empty_set)
    then show ?thesis
      using True m by (simp add: ai_choice_def Let_def)
  next
    case False
    then have "direction p \<notin> set (filter ?P ?c)"
      by simp
    then show ?thesis
      using False by (simp add: ai_choice_def Let_def find_filter_hd)
  qed
  then show ?case
    using make_decision_alive[OF a, of opp walls W H] by simp
qed

theorem make_decision_spec_witness:
  "exact_player orange \<and> exact_player blue \<and> alive orange \<and> direction orange = (-1, 0)
   \<and> \<not> safe_heading orange blue 1400 900 (-1, 0)
   \<and> safe_heading orange blue 1400 900 (0, 1)
   \<and> make_decision orange blue [] 1400 900 = orange\<lparr> direction := (0, 1) \<rparr>"
proof -
  have s1: "\<not> safe_heading orange blue 1400 900 (-1, 0)"
    by (simp add: safe_heading_def step_cell_def overlaps_def out_of_bounds_def
        blue_fields orange_fields GRID_SIZE_def)
  have s2: "safe_heading orange blue 1400 900 (0, 1)"
    by (simp add: safe_heading_def step_cell_def overlaps_def out_of_bounds_def
        blue_fields orange_fields GRID_SIZE_def)
  have c: "candidates (-1, 0) = [(-1, 0), (0, 1), (0, -1)]"
    by (simp add: candidates_def opposite_def)
  have ch: "ai_choice orange blue 1400 900 = (0, 1)"
    using s1 s2 by (simp add: ai_choice_def c orange_fields)
  have "alive orange \<and> direction orange \<in> set [(1, 0), (-1, 0), (0, 1), (0, -1)]"
    by (simp add: orange_fields)
  with make_decision_spec[of orange blue 1400 900 "[]"] ch s1 s2 blue_orange_exact
  show ?thesis by (simp add: orange_fields)
qed

section \<open>Trail geometry\<close>

lemma move_distance_30: "move_distance = 30"
  by (simp add: move_distance_def GRID_SIZE_def)

lemma small_multiple_zero:
  fixes k :: int
  shows "\<bar>of_int k * move_distance\<bar> < of_int GRID_SIZE \<longleftrightarrow> k = 0"
proof -
  have "\<bar>of_int k * move_distance\<bar> = (of_int (\<bar>k\<bar> * 30) :: rat)"
    by (simp add: move_distance_30 abs_mult)
  moreover have "(of_int GRID_SIZE :: rat) = of_int 20"
    by (simp add: GRID_SIZE_def)
  ultimately have "\<bar>of_int k * move_distance\<bar> < of_int GRID_SIZE \<longleftrightarrow> \<bar>k\<bar> * 30 < 20"
    by (simp only: of_int_less_iff)
  then show ?thesis by presburger
qed

lemma overlaps_multiple:
  fixes k l :: int
  assumes "fst a - fst b = of_int k * move_distance" "snd a - snd b = of_int l * move_distance"
  shows "overlaps a b \<longleftrightarrow> b = a"
proof -
  have "overlaps a b \<longleftrightarrow> k = 0 \<and> l = 0"
    by (simp add: overlaps_def assms small_multiple_zero)
  also have "\<dots> \<longleftrightarrow> fst a - fst b = 0 \<and> snd a - snd b = 0"
    by (simp add: assms move_distance_30)
  also have "\<dots> \<longleftrightarrow> b = a"
    by (auto simp: prod_eq_iff)
  finally show ?thesis .
qed

lemma on_lattice_fresh: "on_lattice (Player_init px py col ctl nm)"
proof -
  have "of_int px = of_int px + of_int (0::int) * move_distance"
       "of_int py = of_int py + of_int (0::int) * move_distance"
    by simp_all
  then show ?thesis
    unfolding on_lattice_def Player_init_def by (simp del: of_int_0)
qed

lemma on_lattice_fresh_ai: "on_lattice (AIPlayer_init px py col nm)"
  using on_lattice_fresh[of px py col "[]" nm]
  by (simp add: on_lattice_def AIPlayer_init_def)

lemma on_lattice_change_direction: "on_lattice p \<Longrightarrow> on_lattice (change_direction p d)"
  by (simp add: on_lattice_def change_direction_def Let_def)

lemma trail_move_alive:
  assumes "alive p"
  shows "x (move p) = x p + of_int (fst (direction p)) * move_distance"
    and "y (move p) = y p + of_int (snd (direction p)) * move_distance"
    and "set (trail (move p)) \<subseteq> insert (x (move p), y (move p)) (set (trail p))"
    and "trail (move p) \<noteq> []"
    and "last (trail (move p)) = (x (move p), y (move p))"
  using assms
  by (auto simp: move_def Let_def last_1000_def dest: in_set_dropD)

lemma on_lattice_move:
  assumes "on_lattice p"
  shows "on_lattice (move p)"
proof (cases "alive p")
  case False
  then show ?thesis using assms by (simp add: move_def)
next
  case True
  note m = trail_move_alive[OF True]
  have "\<exists>k l :: int. fst c = x (move p) + of_int k * move_distance
                     \<and> snd c = y (move p) + of_int l * move_distance"
    if c: "c \<in> set (trail (move p))" for c
  proof -
    from c m(3) consider "c = (x (move p), y (move p))" | "c \<in> set (trail p)"
      by blast
    then show ?thesis
    proof cases
      case 1
      have "fst c = x (move p) + of_int (0::int) * move_distance"
           "snd c = y (move p) + of_int (0::int) * move_distance"
        using 1 by simp_all
      then show ?thesis by blast
    next
      case 2
      then obtain k l :: int where
        kl: "fst c = x p + of_int k * move_distance" "snd c = y p + of_int l * move_distance"
        using assms unfolding on_lattice_def by blast
      have "fst c = x (move p) + of_int (k - fst (direction p)) * move_distance"
           "snd c = y (move p) + of_int (l - snd (direction p)) * move_distance"
        by (simp_all add: kl m(1,2) algebra_simps)
      then show ?thesis by blast
    qed
  qed
  with m(4,5) show ?thesis
    unfolding on_lattice_def by blast
qed

lemma reachable_on_lattice: "reachable p \<Longrightarrow> on_lattice p"
  by (induction rule: reachable.induct)
    (simp_all add: on_lattice_fresh on_lattice_fresh_ai on_lattice_move
      on_lattice_change_direction)

lemma exact_player_move:
  assumes "exact_player p" "exact_move p"
  shows "exact_player (move p)"
proof (cases "alive p")
  case False
  then show ?thesis using assms(1) by (simp add: move_def)
next
  case True
  note m = trail_move_alive[OF True]
  have new: "exact_cell (x (move p), y (move p))"
    using assms(2) unfolding m(1,2) exact_move_def by blast
  moreover have "exact_cell c" if "c \<in> set (trail (move p))" for c
    using that m(3) new assms(1) unfolding exact_player_def by blast
  ultimately show ?thesis
    unfolding exact_player_def by blast
qed

lemma reachable_exact: "reachable p \<Longrightarrow> exact_player p"
proof (induction rule: reachable.induct)
  case (fresh px py col ctl nm)
  then show ?case by (simp add: exact_player_def Player_init_def)
next
  case (fresh_ai px py col nm)
  then show ?case by (simp add: exact_player_def AIPlayer_init_def Player_init_def)
next
  case (after_move p)
  then show ?case by (simp add: exact_player_move)
next
  case (after_change p d)
  then show ?case by (simp add: exact_player_def change_direction_def Let_def)
qed


text \<open>
  Claim C9. In every player state reached from a freshly constructed player by \<open>move\<close> and
  \<open>change_direction\<close> with coordinates that stay exact, all coordinates are exact and any
  two trail cells differ on each axis by an integer multiple of
  1.5 times \<open>GRID_SIZE\<close>. Hence the overlap test of a head, or of the cell one step ahead,
  against a cell of the own trail without its last entry succeeds only when the two cells
  are equal: the self-trail scan of \<open>check_collision\<close> and the own-trail scan of
  \<open>make_decision\<close> find a hit exactly when the tested cell is itself in that part of the
  trail.
\<close>

theorem trail_lattice:
  "reachable p \<longrightarrow>
     exact_player p
     \<and> (\<forall>a \<in> set (trail p). \<forall>b \<in> set (trail p). \<exists>k l :: int.
         fst a - fst b = of_int k * (3 / 2 * of_int GRID_SIZE)
         \<and> snd a - snd b = of_int l * (3 / 2 * of_int GRID_SIZE))
     \<and> (\<forall>c \<in> set (butlast (trail p)). overlaps (head p) c \<longleftrightarrow> c = head p)
     \<and> (hits_trail (x p) (y p) (butlast (trail p)) \<longleftrightarrow> head p \<in> set (butlast (trail p)))
     \<and> (\<forall>d \<in> set [(1, 0), (-1, 0), (0, 1), (0, -1)].
          \<forall>c \<in> set (butlast (trail p)). overlaps (step_cell p d) c \<longleftrightarrow> c = step_cell p d)
     \<and> (\<forall>d \<in> set [(1, 0), (-1, 0), (0, 1), (0, -1)].
          hits_trail (fst (step_cell p d)) (snd (step_cell p d)) (butlast (trail p))
            \<longleftrightarrow> step_cell p d \<in> set (butlast (trail p)))"
proof
  assume r: "reachable p"
  then have inv: "on_lattice p"
    by (rule reachable_on_lattice)
  have ex: "exact_player p"
    using r by (rule reachable_exact)
  have md: "3 / 2 * of_int GRID_SIZE = move_distance"
    by (simp add: move_distance_def)
  have cell: "\<exists>k l :: int. fst c = x p + of_int k * move_distance
                          \<and> snd c = y p + of_int l * move_distance"
    if "c \<in> set (trail p)" for c
    using inv that unfolding on_lattice_def by blast
  have pair: "\<exists>k l :: int. fst a - fst b = of_int k * move_distance
                          \<and> snd a - snd b = of_int l * move_distance"
    if a: "a \<in> set (trail p)" and b: "b \<in> set (trail p)" for a b
  proof -
    from cell[OF a] obtain k l :: int where
      1: "fst a = x p + of_int k * move_distance" "snd a = y p + of_int l * move_distance"
      by blast
    from cell[OF b] obtain k' l' :: int where
      2: "fst b = x p + of_int k' * move_distance" "snd b = y p + of_int l' * move_distance"
      by blast
    have "fst a - fst b = of_int (k - k') * move_distance"
         "snd a - snd b = of_int (l - l') * move_distance"
      by (simp_all add: 1 2 algebra_simps)
    then show ?thesis by blast
  qed
  have hd_ov: "overlaps (head p) c \<longleftrightarrow> c = head p" if c: "c \<in> set (butlast (trail p))" for c
  proof -
    from cell[OF in_set_butlastD[OF c]] obtain k l :: int where
      "fst c = x p + of_int k * move_distance" "snd c = y p + of_int l * move_distance"
      by blast
    then have "fst (head p) - fst c = of_int (- k) * move_distance"
              "snd (head p) - snd c = of_int (- l) * move_distance"
      by (simp_all add: head_def)
    then show ?thesis by (rule overlaps_multiple)
  qed
  have st_ov: "overlaps (step_cell p d) c \<longleftrightarrow> c = step_cell p d"
    if c: "c \<in> set (butlast (trail p))" for c d
  proof -
    from cell[OF in_set_butlastD[OF c]] obtain k l :: int where
      "fst c = x p + of_int k * move_distance" "snd c = y p + of_int l * move_distance"
      by blast
    then have "fst (step_cell p d) - fst c = of_int (fst d - k) * move_distance"
              "snd (step_cell p d) - snd c = of_int (snd d - l) * move_distance"
      by (simp_all add: step_cell_eq algebra_simps)
    then show ?thesis by (rule overlaps_multiple)
  qed
  have h1: "hits_trail (x p) (y p) (butlast (trail p)) \<longleftrightarrow> head p \<in> set (butlast (trail p))"
    unfolding hits_trail_iff using hd_ov by (auto simp: head_def)
  have h2: "hits_trail (fst (step_cell p d)) (snd (step_cell p d)) (butlast (trail p))
              \<longleftrightarrow> step_cell p d \<in> set (butlast (trail p))" for d
    unfolding hits_trail_iff using st_ov[of _ d] by auto
  show "exact_player p
     \<and> (\<forall>a \<in> set (trail p). \<forall>b \<in> set (trail p). \<exists>k l :: int.
         fst a - fst b = of_int k * (3 / 2 * of_int GRID_SIZE)
         \<and> snd a - snd b = of_int l * (3 / 2 * of_int GRID_SIZE))
     \<and> (\<forall>c \<in> set (butlast (trail p)). overlaps (head p) c \<longleftrightarrow> c = head p)
     \<and> (hits_trail (x p) (y p) (butlast (trail p)) \<longleftrightarrow> head p \<in> set (butlast (trail p)))
     \<and> (\<forall>d \<in> set [(1, 0), (-1, 0), (0, 1), (0, -1)].
          \<forall>c \<in> set (butlast (trail p)). overlaps (step_cell p d) c \<longleftrightarrow> c = step_cell p d)
     \<and> (\<forall>d \<in> set [(1, 0), (-1, 0), (0, 1), (0, -1)].
          hits_trail (fst (step_cell p d)) (snd (step_cell p d)) (butlast (trail p))
            \<longleftrightarrow> step_cell p d \<in> set (butlast (trail p)))"
    unfolding md using ex pair hd_ov st_ov h1 h2 by blast
qed


lemma looped_fields:
  "x looped = 100" "y looped = 200"
  "trail looped = [(100, 200), (130, 200), (130, 230), (100, 230), (100, 200)]"
  by (simp_all add: looped_def move_def change_direction_def Player_init_def Let_def
      move_distance_def GRID_SIZE_def last_1000_def)

theorem trail_lattice_witness:
  "reachable looped \<and> head looped \<in> set (butlast (trail looped))
   \<and> hits_trail (x looped) (y looped) (butlast (trail looped))
   \<and> \<not> overlaps (head looped) (130, 200)"
proof -
  have r: "reachable looped"
    unfolding looped_def
    by (intro reachable.intros)
      (simp_all add: exact_move_def exact_cell_def exact_coord_def move_def
        change_direction_def Player_init_def Let_def move_distance_def GRID_SIZE_def
        last_1000_def)
  have m: "head looped \<in> set (butlast (trail looped))"
    by (simp add: looped_fields head_def)
  have n: "(130, 200) \<in> set (butlast (trail looped))" "(130, 200) \<noteq> head looped"
    by (simp_all add: looped_fields head_def)
  from trail_lattice[of looped] r m n show ?thesis
    by blast
qed

section \<open>TronGame: one tick in play\<close>

lemma process_input_queue_not_playing:
  "state g \<noteq> PLAYING \<Longrightarrow> process_input_queue g = Inr g"
  by (simp add: process_input_queue.simps)

lemma process_key_Some:
  "process_key k ai (Some p1) (Some p2)
     = Inr (Some (press p1 k), Some (if ai then p2 else press p2 k))"
  by (simp add: process_key_def press_def split: option.splits)

lemma process_input_queue_playing:
  assumes "state g = PLAYING" "player1 g = Some p1" "player2 g = Some p2"
  shows "process_input_queue g =
           Inr (g\<lparr> input_queue := [],
                   player1 := Some (fst (drained g p1 p2)),
                   player2 := Some (snd (drained g p1 p2)) \<rparr>)"
  using assms
proof (induction "input_queue g" arbitrary: g p1 p2)
  case Nil
  have "input_queue g = []"
    using Nil(1) by simp
  then have "process_input_queue g = Inr g"
    by (simp add: process_input_queue.simps)
  moreover have "g\<lparr> input_queue := [], player1 := Some (fst (drained g p1 p2)),
                     player2 := Some (snd (drained g p1 p2)) \<rparr> = g"
    using \<open>input_queue g = []\<close> Nil(3,4) by (cases g) (simp add: drained_def)
  ultimately show ?case by simp
next
  case (Cons k ks)
  have q: "input_queue g = k # ks"
    using Cons(2) by simp
  let ?p1 = "press p1 k"
  let ?p2 = "if ai_mode g then p2 else press p2 k"
  let ?g = "g\<lparr> input_queue := ks, player1 := Some ?p1, player2 := Some ?p2 \<rparr>"
  have step: "process_input_queue g = process_input_queue ?g"
    by (subst process_input_queue.simps)
      (simp add: q Cons.prems process_key_Some cong: if_cong)
  have "process_input_queue ?g =
          Inr (?g\<lparr> input_queue := [],
                   player1 := Some (fst (drained ?g ?p1 ?p2)),
                   player2 := Some (snd (drained ?g ?p1 ?p2)) \<rparr>)"
    by (rule Cons(1)) (simp_all add: Cons.prems)
  moreover have "drained ?g ?p1 ?p2 = drained g p1 p2"
    by (simp add: drained_def q)
  ultimately show ?case
    using step by simp
qed


lemma check_collision_crash [simp]:
  "check_collision p (crash q) walls W H = check_collision p q walls W H"
  by (simp add: check_collision_def crash_def)

lemma update_playing:
  fixes g :: game and now :: int and p1 p2 :: player
  defines "q1 \<equiv> collided g (fst (moved g p1 p2)) (snd (moved g p1 p2))"
      and "q2 \<equiv> collided g (snd (moved g p1 p2)) (fst (moved g p1 p2))"
  assumes "state g = PLAYING" "player1 g = Some p1" "player2 g = Some p2"
  shows "update g now =
           Inr (if \<not> alive q1 \<or> \<not> alive q2
                then g\<lparr> input_queue := [], player1 := Some q1, player2 := Some q2,
                        state := GAME_OVER, game_over_timer := now,
                        winner := Some (if \<not> alive q1 \<and> \<not> alive q2 then ''Tie''
                                        else if \<not> alive q1 then name q2 else name q1) \<rparr>
                else g\<lparr> input_queue := [], player1 := Some q1, player2 := Some q2 \<rparr>)"
proof -
  let ?d = "drained g p1 p2"
  let ?gq = "g\<lparr> input_queue := [], player1 := Some (fst ?d), player2 := Some (snd ?d) \<rparr>"
  have piq: "process_input_queue g = Inr ?gq"
    using assms(3-5) by (rule process_input_queue_playing)
  obtain W H where sz: "screen_size g = (W, H)"
    by (cases "screen_size g")
  let ?a2 = "snd (decided g ?d)"
  have a2: "?a2 = (if ai_mode g \<and> ai_fields (snd ?d) \<noteq> None
                   then make_decision (snd ?d) (fst ?d) [] W H else snd ?d)"
    by (auto simp: decided_def sz)
  have m: "moved g p1 p2 = (move (fst ?d), move ?a2)"
    by (simp add: moved_def decided_def)
  let ?m1 = "move (fst ?d)"
  let ?m2 = "move ?a2"
  have q1: "q1 = (if check_collision ?m1 ?m2 [] W H then crash ?m1 else ?m1)"
    by (simp add: q1_def m collided_def sz)
  have q2: "q2 = (if check_collision ?m2 q1 [] W H then crash ?m2 else ?m2)"
    by (simp add: q2_def q1 m collided_def sz)
  have gq: "player1 ?gq = Some (fst ?d)" "player2 ?gq = Some (snd ?d)"
    "screen_size ?gq = (W, H)" "ai_mode ?gq = ai_mode g"
    by (simp_all add: sz)
  have upd: "update g now =
          (let p1 = q1; p2 = q2; g' = ?gq\<lparr> player1 := Some p1, player2 := Some p2 \<rparr>
           in if \<not> alive p1 \<or> \<not> alive p2
              then Inr (g'\<lparr> state := GAME_OVER, game_over_timer := now,
                             winner := (if \<not> alive p1 \<and> \<not> alive p2 then Some ''Tie''
                                        else if \<not> alive p1 then Some (name p2)
                                        else Some (name p1)) \<rparr>)
              else Inr g')"
    unfolding update_def q1 q2 a2
    by (simp only: assms(3) piq gq sum.case prod.case option.case Let_def simp_thms if_False)
  show ?thesis
    unfolding upd by (simp add: Let_def)
qed


lemma name_change_direction [simp]: "name (change_direction p d) = name p"
  by (simp add: change_direction_def Let_def)

lemma name_press [simp]: "name (press p k) = name p"
  by (simp add: press_def split: option.splits)

lemma name_foldl_press [simp]: "name (foldl press p ks) = name p"
  by (induction ks arbitrary: p) simp_all

lemma name_move [simp]: "name (move p) = name p"
  by (simp add: move_def Let_def)

lemma name_make_decision [simp]: "name (make_decision p opp walls W H) = name p"
  by (simp add: make_decision_def Let_def)

lemma name_collided [simp]: "name (collided g p opp) = name p"
  by (simp add: collided_def crash_def)

lemma name_moved [simp]:
  "name (fst (moved g p1 p2)) = name p1" "name (snd (moved g p1 p2)) = name p2"
  by (simp_all add: moved_def decided_def drained_def)

text \<open>
  Claim C2. A tick in phase \<open>PLAYING\<close> with both players present returns a session. Its
  players are the two moved players \<open>m1\<close> and \<open>m2\<close>, each crashed exactly when its collision
  check against the other moved player succeeds, so both moves precede both checks. If both
  are still alive the phase stays \<open>PLAYING\<close> and winner and timestamp are untouched. If at
  least one is dead the phase is \<open>GAME_OVER\<close>, the timestamp is the current time, and the
  winner is "Tie" when both are dead and otherwise the name of the survivor; for player
  names other than "Tie" the winner is "Tie" exactly when both are dead.
\<close>

theorem tick_outcome:
  fixes g :: game and now :: int and p1 p2 :: player
  defines "m1 \<equiv> fst (moved g p1 p2)" and "m2 \<equiv> snd (moved g p1 p2)"
  defines "q1 \<equiv> collided g m1 m2" and "q2 \<equiv> collided g m2 m1"
  assumes "state g = PLAYING" "player1 g = Some p1" "player2 g = Some p2"
  shows "\<exists>g'. update g now = Inr g'
           \<and> player1 g' = Some q1 \<and> player2 g' = Some q2
           \<and> (alive q1 \<and> alive q2 \<longrightarrow>
                state g' = PLAYING \<and> winner g' = winner g
                \<and> game_over_timer g' = game_over_timer g)
           \<and> (\<not> alive q1 \<or> \<not> alive q2 \<longrightarrow>
                state g' = GAME_OVER \<and> game_over_timer g' = now
                \<and> winner g' = Some (if \<not> alive q1 \<and> \<not> alive q2 then ''Tie''
                                     else if alive q1 then name p1 else name p2)
                \<and> (name p1 \<noteq> ''Tie'' \<and> name p2 \<noteq> ''Tie'' \<longrightarrow>
                     (winner g' = Some ''Tie'' \<longleftrightarrow> \<not> alive q1 \<and> \<not> alive q2)))"
proof -
  have n: "name q1 = name p1" "name q2 = name p2"
    by (simp_all add: q1_def q2_def m1_def m2_def)
  have u: "update g now =
           Inr (if \<not> alive q1 \<or> \<not> alive q2
                then g\<lparr> input_queue := [], player1 := Some q1, player2 := Some q2,
                        state := GAME_OVER, game_over_timer := now,
                        winner := Some (if \<not> alive q1 \<and> \<not> alive q2 then ''Tie''
                                        else if \<not> alive q1 then name q2 else name q1) \<rparr>
                else g\<lparr> input_queue := [], player1 := Some q1, player2 := Some q2 \<rparr>)"
    unfolding q1_def q2_def m1_def m2_def using assms(5-7) by (rule update_playing)
  show ?thesis
  proof (cases "\<not> alive q1 \<or> \<not> alive q2")
    case True
    then show ?thesis
      unfolding u using n by (auto simp: assms(5))
  next
    case False
    then show ?thesis
      unfolding u by (simp add: assms(5))
  qed
qed


lemma duel_fields:
  "state duel = PLAYING" "ai_mode duel = False" "input_queue duel = [K_s, K_a]"
  "screen_size duel = (1400, 900)"
  "player1 duel = Some (Player_init 100 200 NEON_BLUE player1_controls ''Player 1'')"
  "player2 duel = Some (Player_init 160 200 NEON_ORANGE player2_controls ''Player 2'')"
  by (simp_all add: duel_def TronGame_init_def WINDOW_WIDTH_def WINDOW_HEIGHT_def)

lemma duel_moved:
  "moved duel (Player_init 100 200 NEON_BLUE player1_controls ''Player 1'')
              (Player_init 160 200 NEON_ORANGE player2_controls ''Player 2'')
     = ((Player_init 100 200 NEON_BLUE player1_controls ''Player 1'')
          \<lparr> x := 130, trail := [(100, 200), (130, 200)] \<rparr>,
        (Player_init 160 200 NEON_ORANGE player2_controls ''Player 2'')
          \<lparr> x := 130, direction := (-1, 0), trail := [(160, 200), (130, 200)] \<rparr>)"
  by (simp add: moved_def decided_def drained_def duel_fields press_def Player_init_def
      player1_controls_def player2_controls_def change_direction_def move_def Let_def
      move_distance_def GRID_SIZE_def last_1000_def)

lemma duel_collided:
  "\<not> alive (collided duel
      ((Player_init 100 200 NEON_BLUE player1_controls ''Player 1'')
          \<lparr> x := 130, trail := [(100, 200), (130, 200)] \<rparr>)
      ((Player_init 160 200 NEON_ORANGE player2_controls ''Player 2'')
          \<lparr> x := 130, direction := (-1, 0), trail := [(160, 200), (130, 200)] \<rparr>))"
  "\<not> alive (collided duel
      ((Player_init 160 200 NEON_ORANGE player2_controls ''Player 2'')
          \<lparr> x := 130, direction := (-1, 0), trail := [(160, 200), (130, 200)] \<rparr>)
      ((Player_init 100 200 NEON_BLUE player1_controls ''Player 1'')
          \<lparr> x := 130, trail := [(100, 200), (130, 200)] \<rparr>))"
  by (simp_all add: collided_def duel_fields check_collision_def crash_def Player_init_def
      GRID_SIZE_def)

theorem tick_outcome_witness:
  "state duel = PLAYING
   \<and> (\<exists>g'. update duel 5000 = Inr g' \<and> state g' = GAME_OVER \<and> winner g' = Some ''Tie''
            \<and> game_over_timer g' = 5000)"
proof -
  let ?p1 = "Player_init 100 200 NEON_BLUE player1_controls ''Player 1''"
  let ?p2 = "Player_init 160 200 NEON_ORANGE player2_controls ''Player 2''"
  from tick_outcome[of duel ?p1 ?p2 5000, OF duel_fields(1,5,6)]
  show ?thesis
    unfolding duel_moved fst_conv snd_conv using duel_collided duel_fields(1) by auto
qed

section \<open>TronGame: the input queue\<close>

lemma handle_key_event_playing:
  assumes "state g = PLAYING" "k \<in> set [K_UP, K_DOWN, K_LEFT, K_RIGHT, K_w, K_s, K_a, K_d]"
  shows "handle_key_event g k display = Inr (g\<lparr> input_queue := input_queue g @ [k] \<rparr>)"
proof -
  have "k \<noteq> K_ESCAPE" "k \<noteq> K_f"
    using assms(2) by auto
  then show ?thesis
    using assms by (simp add: handle_key_event_def)
qed

lemma moved_players:
  "fst (moved g p1 p2) = move (foldl press p1 (input_queue g))"
  "\<not> ai_mode g \<Longrightarrow> snd (moved g p1 p2) = move (foldl press p2 (input_queue g))"
  "ai_mode g \<Longrightarrow> snd (moved g p1 p2) =
     move (if ai_fields p2 \<noteq> None
           then make_decision p2 (foldl press p1 (input_queue g)) []
                  (fst (screen_size g)) (snd (screen_size g))
           else p2)"
  by (simp_all add: moved_def decided_def drained_def)

text \<open>
  Claim C8. In phase \<open>PLAYING\<close>, \<open>handle_key_event\<close> on one of the eight directional keys
  only appends the key to the end of the input queue; no player changes. With both players
  present, \<open>process_input_queue\<close> empties the queue and leaves each player as the queued
  keys applied in order from the front through \<open>press\<close> (player two only outside AI mode),
  and \<open>update\<close> returns a session with an empty queue whose players are the moves of those
  drained players, crashed or not. In any other phase \<open>process_input_queue\<close> leaves the
  session, queue included, as it is. (\<^verbatim>\<open>handle_input\<close>, the per-frame poll of held keys, is
  a separate path that calls \<open>change_direction\<close> at once; it is not an event handler.)
\<close>

theorem input_queue_fifo:
  "(state g = PLAYING \<and> k \<in> set [K_UP, K_DOWN, K_LEFT, K_RIGHT, K_w, K_s, K_a, K_d] \<longrightarrow>
      handle_key_event g k display = Inr (g\<lparr> input_queue := input_queue g @ [k] \<rparr>))
   \<and> (state g = PLAYING \<and> player1 g = Some p1 \<and> player2 g = Some p2 \<longrightarrow>
        process_input_queue g =
          Inr (g\<lparr> input_queue := [],
                  player1 := Some (foldl press p1 (input_queue g)),
                  player2 := Some (if ai_mode g then p2
                                   else foldl press p2 (input_queue g)) \<rparr>)
        \<and> (\<exists>g'. update g now = Inr g' \<and> input_queue g' = []
              \<and> player1 g' = Some (collided g (fst (moved g p1 p2)) (snd (moved g p1 p2)))
              \<and> player2 g' = Some (collided g (snd (moved g p1 p2)) (fst (moved g p1 p2)))
              \<and> fst (moved g p1 p2) = move (foldl press p1 (input_queue g))
              \<and> (\<not> ai_mode g \<longrightarrow>
                    snd (moved g p1 p2) = move (foldl press p2 (input_queue g)))))
   \<and> (state g \<noteq> PLAYING \<longrightarrow> process_input_queue g = Inr g)"
proof (intro conjI impI, goal_cases)
  case 1
  then show ?case
    using handle_key_event_playing[of g k display] by blast
next
  case 2
  then show ?case
    using process_input_queue_playing[of g p1 p2] by (simp add: drained_def)
next
  case 3
  then have a: "state g = PLAYING" "player1 g = Some p1" "player2 g = Some p2"
    by blast+
  show ?case
    unfolding update_playing[OF a] using moved_players(1,2)[of g p1 p2]
    by (cases "\<not> alive (collided g (fst (moved g p1 p2)) (snd (moved g p1 p2)))
                \<or> \<not> alive (collided g (snd (moved g p1 p2)) (fst (moved g p1 p2)))")
      simp_all
next
  case 4
  then show ?case
    by (rule process_input_queue_not_playing)
qed

theorem input_queue_fifo_witness:
  "state duel = PLAYING
   \<and> handle_key_event (duel\<lparr> input_queue := [K_s] \<rparr>) K_a (1920, 1080) = Inr duel
   \<and> (\<exists>g'. update duel 5000 = Inr g' \<and> input_queue g' = []
         \<and> map_option direction (player2 g') = Some (-1, 0)
         \<and> map_option head (player2 g') = Some (130, 200))
   \<and> process_input_queue (duel\<lparr> state := GAME_OVER \<rparr>) = Inr (duel\<lparr> state := GAME_OVER \<rparr>)"
proof -
  let ?p1 = "Player_init 100 200 NEON_BLUE player1_controls ''Player 1''"
  let ?p2 = "Player_init 160 200 NEON_ORANGE player2_controls ''Player 2''"
  let ?d0 = "duel\<lparr> input_queue := [K_s] \<rparr>"
  have d0: "state ?d0 = PLAYING" "?d0\<lparr> input_queue := input_queue ?d0 @ [K_a] \<rparr> = duel"
    by (simp_all add: duel_def)
  have k: "K_a \<in> set [K_UP, K_DOWN, K_LEFT, K_RIGHT, K_w, K_s, K_a, K_d]"
    by simp
  have go: "state (duel\<lparr> state := GAME_OVER \<rparr>) \<noteq> PLAYING"
    by simp
  have 1: "handle_key_event ?d0 K_a (1920, 1080) = Inr duel"
    using input_queue_fifo[of ?d0 K_a "(1920, 1080)" ?p1 ?p2 5000] d0 k by simp
  have 3: "process_input_queue (duel\<lparr> state := GAME_OVER \<rparr>) = Inr (duel\<lparr> state := GAME_OVER \<rparr>)"
    using input_queue_fifo[of "duel\<lparr> state := GAME_OVER \<rparr>" K_a "(1920, 1080)" ?p1 ?p2 5000] go
    by blast
  have "\<exists>g'. update duel 5000 = Inr g' \<and> input_queue g' = []
          \<and> player2 g' = Some (collided duel (snd (moved duel ?p1 ?p2)) (fst (moved duel ?p1 ?p2)))"
    using input_queue_fifo[of duel K_a "(1920, 1080)" ?p1 ?p2 5000] duel_fields(1,5,6)
    by blast
  then have 2: "\<exists>g'. update duel 5000 = Inr g' \<and> input_queue g' = []
         \<and> map_option direction (player2 g') = Some (-1, 0)
         \<and> map_option head (player2 g') = Some (130, 200)"
    unfolding duel_moved fst_conv snd_conv
    by (auto simp: collided_def crash_def head_def Player_init_def)
  from 1 2 3 duel_fields(1) show ?thesis by blast
qed

section \<open>TronGame: starting a game\<close>

lemma reset_game_start:
  "state (reset_game g) = PLAYING"
  "player1 (reset_game g) =
     Some (Player_init ((fst (screen_size g) div GRID_SIZE div 4) * GRID_SIZE)
             ((snd (screen_size g) div GRID_SIZE div 2) * GRID_SIZE)
             NEON_BLUE player1_controls ''Player 1'')"
  "player2 (reset_game g) =
     Some (if ai_mode g
           then AIPlayer_init ((3 * (fst (screen_size g) div GRID_SIZE) div 4) * GRID_SIZE)
                  ((snd (screen_size g) div GRID_SIZE div 2) * GRID_SIZE) NEON_ORANGE ''AI''
           else Player_init ((3 * (fst (screen_size g) div GRID_SIZE) div 4) * GRID_SIZE)
                  ((snd (screen_size g) div GRID_SIZE div 2) * GRID_SIZE)
                  NEON_ORANGE player2_controls ''Player 2'')"
  by (simp_all add: reset_game_def Let_def case_prod_beta)

lemma start_headings:
  "map_option direction (player1 (reset_game g)) = Some (1, 0)"
  "map_option direction (player2 (reset_game g)) = Some (if ai_mode g then (-1, 0) else (1, 0))"
  by (simp_all add: reset_game_start Player_init_def AIPlayer_init_def)

lemma start_by_key:
  "state g = MENU \<Longrightarrow> handle_key_event g K_1 display = Inr (reset_game (g\<lparr> ai_mode := False \<rparr>))"
  "state g = MENU \<Longrightarrow> handle_key_event g K_2 display = Inr (reset_game (g\<lparr> ai_mode := True \<rparr>))"
  "state g = GAME_OVER \<Longrightarrow> handle_key_event g K_r display = Inr (reset_game g)"
  by (simp_all add: handle_key_event_def)

text \<open>
  Claim C3. Selecting human-vs-human mode in the menu of a fresh session (1400 by 900)
  starts play with player one at (340, 440) and player two at (1040, 440), the
  grid-derived quarter and three-quarter columns of the middle row, but both players head
  right, \<open>(1, 0)\<close>: \<^verbatim>\<open>Player.__init__\<close> sets that heading and \<^verbatim>\<open>reset_game\<close> does not change
  it. Only in AI mode does player two head left, set by \<^verbatim>\<open>AIPlayer.__init__\<close>.
\<close>

theorem human_mode_start_headings:
  "handle_key_event TronGame_init K_1 (1920, 1080) = Inr (reset_game TronGame_init)
   \<and> state (reset_game TronGame_init) = PLAYING
   \<and> ai_mode (reset_game TronGame_init) = False
   \<and> map_option head (player1 (reset_game TronGame_init)) = Some (340, 440)
   \<and> map_option head (player2 (reset_game TronGame_init)) = Some (1040, 440)
   \<and> map_option direction (player1 (reset_game TronGame_init)) = Some (1, 0)
   \<and> map_option direction (player2 (reset_game TronGame_init)) = Some (1, 0)
   \<and> map_option direction
        (player2 (reset_game (TronGame_init\<lparr> ai_mode := True \<rparr>))) = Some (-1, 0)"
proof -
  have i: "state TronGame_init = MENU" "TronGame_init\<lparr> ai_mode := False \<rparr> = TronGame_init"
    "ai_mode TronGame_init = False" "screen_size TronGame_init = (1400, 900)"
    by (simp_all add: TronGame_init_def WINDOW_WIDTH_def WINDOW_HEIGHT_def)
  have 1: "handle_key_event TronGame_init K_1 (1920, 1080) = Inr (reset_game TronGame_init)"
    using start_by_key(1)[OF i(1)] by (simp add: i(2))
  have 2: "ai_mode (reset_game TronGame_init) = False"
    by (simp add: reset_game_def Let_def case_prod_beta i)
  have 3: "map_option head (player1 (reset_game TronGame_init)) = Some (340, 440)"
          "map_option head (player2 (reset_game TronGame_init)) = Some (1040, 440)"
    by (simp_all add: reset_game_start i head_def Player_init_def GRID_SIZE_def)
  show ?thesis
    using 1 2 3 reset_game_start(1)[of TronGame_init] start_headings[of TronGame_init]
      start_headings(2)[of "TronGame_init\<lparr> ai_mode := True \<rparr>"]
    by (simp add: i)
qed

end
